theory Spec2Isabelle
  imports Main
begin

section \<open>Strings as the Python code uses them\<close>

text \<open>
  Python strings are modelled as \<open>string\<close>, lists of 8-bit characters (code points
  0..255). On that range the character classes below are exactly the ones the
  source's regular expressions and \<open>str\<close> methods use: the four non-ASCII letters
  that \<open>[A-Z]\<close> also matches under \<open>re.I\<close> (U+0130, U+0131, U+017F, U+212A) all
  lie above 255.
\<close>

definition code :: "char \<Rightarrow> nat" where
  "code c = of_char c"

text \<open>\<open>[A-Z0-9]\<close> under \<open>re.I\<close>: ASCII digits and letters of either case.\<close>

definition is_alnum :: "char \<Rightarrow> bool" where
  "is_alnum c = ((48 \<le> code c \<and> code c \<le> 57) \<or> (65 \<le> code c \<and> code c \<le> 90)
                 \<or> (97 \<le> code c \<and> code c \<le> 122))"

text \<open>\<open>[A-Z0-9]\<close> without \<open>re.I\<close>: the grammar of an issued token's suffix.\<close>

definition is_upper_alnum :: "char \<Rightarrow> bool" where
  "is_upper_alnum c = ((48 \<le> code c \<and> code c \<le> 57) \<or> (65 \<le> code c \<and> code c \<le> 90))"

definition lower_char :: "char \<Rightarrow> char" where
  "lower_char c = (if 65 \<le> code c \<and> code c \<le> 90 then char_of (code c + 32) else c)"

definition upper_char :: "char \<Rightarrow> char" where
  "upper_char c = (if 97 \<le> code c \<and> code c \<le> 122 then char_of (code c - 32) else c)"

text \<open>\<open>str.upper()\<close>, as the source applies it: to hexadecimal digits, all ASCII.\<close>

definition py_upper :: "string \<Rightarrow> string" where
  "py_upper s = map upper_char s"

text \<open>A literal pattern character under \<open>re.I\<close>.\<close>

definition eq_ci :: "char \<Rightarrow> char \<Rightarrow> bool" where
  "eq_ci c d = (lower_char c = lower_char d)"

text \<open>\<open>str.isspace()\<close> on code points below 256, which is what \<open>str.strip()\<close> removes.\<close>

definition is_space :: "char \<Rightarrow> bool" where
  "is_space c = ((9 \<le> code c \<and> code c \<le> 13) \<or> (28 \<le> code c \<and> code c \<le> 32)
                 \<or> code c = 133 \<or> code c = 160)"

definition py_strip :: "string \<Rightarrow> string" where
  "py_strip s = rev (dropWhile is_space (rev (dropWhile is_space s)))"

text \<open>Python's \<open>x or d\<close> on a string that may be \<open>None\<close>.\<close>

definition or_else :: "string option \<Rightarrow> string \<Rightarrow> string" where
  "or_else v d = (case v of None \<Rightarrow> d | Some s \<Rightarrow> (if s = [] then d else s))"

text \<open>\<open>str(n)\<close> of a non-negative integer, as the f-strings format it.\<close>

definition digit_char :: "nat \<Rightarrow> char" where
  "digit_char d = char_of (48 + d)"

function show_nat :: "nat \<Rightarrow> string" where
  "show_nat n = (if n < 10 then [digit_char n] else show_nat (n div 10) @ [digit_char (n mod 10)])"
  by pat_completeness auto
termination
  by (relation "measure id") auto

declare show_nat.simps [simp del]

text \<open>\<open>needle in haystack\<close> on strings.\<close>

fun is_prefix :: "string \<Rightarrow> string \<Rightarrow> bool" where
  "is_prefix [] ys = True"
| "is_prefix (x # xs) [] = False"
| "is_prefix (x # xs) (y # ys) = (x = y \<and> is_prefix xs ys)"

fun contains :: "string \<Rightarrow> string \<Rightarrow> bool" where
  "contains [] needle = (needle = [])"
| "contains (c # cs) needle = (is_prefix needle (c # cs) \<or> contains cs needle)"

section \<open>config.py\<close>

definition TOKEN_PREFIX :: string where
  "TOKEN_PREFIX = ''ABA#''"

definition SUBJECT_BASE :: string where
  "SUBJECT_BASE = ''Invitation to Partner with Amazon Private Brands''"

section \<open>Token issue (mailer.py, \<open>send_one\<close>, lines 86-87)\<close>

text \<open>
  \<open>uuid.uuid4()\<close> is a 128-bit integer drawn at random; \<open>.hex\<close> prints it as 32
  lower-case hexadecimal digits, most significant first. The integer is the model's
  input; digits beyond the 128th bit are not printed.
\<close>

definition hex_digit :: "nat \<Rightarrow> char" where
  "hex_digit d = (if d < 10 then char_of (48 + d) else char_of (87 + d))"

text \<open>\<open>'%0kx' % u\<close>: the \<open>k\<close> low hexadecimal digits of \<open>u\<close>, zero-padded.\<close>

fun hex_digits :: "nat \<Rightarrow> nat \<Rightarrow> string" where
  "hex_digits 0 u = []"
| "hex_digits (Suc k) u = hex_digits k (u div 16) @ [hex_digit (u mod 16)]"

definition uuid_hex :: "nat \<Rightarrow> string" where
  "uuid_hex u = hex_digits 32 u"

definition issue_token :: "nat \<Rightarrow> string" where
  "issue_token u = TOKEN_PREFIX @ py_upper (take 8 (uuid_hex u))"

definition make_subject :: "string \<Rightarrow> string" where
  "make_subject token = ''['' @ token @ ''] '' @ SUBJECT_BASE"

text \<open>The token grammar: the fixed prefix, then exactly 8 characters of \<open>[A-Z0-9]\<close>.\<close>

definition is_token :: "string \<Rightarrow> bool" where
  "is_token t = (length t = 12 \<and> take 4 t = TOKEN_PREFIX \<and> list_all is_upper_alnum (drop 4 t))"

section \<open>Token search (poller.py, \<open>TOKEN_RE\<close>, line 31)\<close>

text \<open>
  \<open>TOKEN_RE\<close> is \<open>\[ABA\#[A-Z0-9]{8}\]\<close> compiled with \<open>re.I\<close>: an opening bracket,
  the prefix matched without regard to case, 8 characters of the class, a closing
  bracket; 14 characters in all. \<open>token_match_at s\<close> says that the pattern matches
  at the start of \<open>s\<close>.
\<close>

definition token_match_at :: "string \<Rightarrow> bool" where
  "token_match_at s =
     (14 \<le> length s \<and> s ! 0 = CHR ''['' \<and>
      list_all2 eq_ci (take 4 (drop 1 s)) TOKEN_PREFIX \<and>
      list_all is_alnum (take 8 (drop 5 s)) \<and> s ! 13 = CHR '']'')"

text \<open>\<open>TOKEN_RE.search(s)\<close>: the match at the leftmost position that has one.\<close>

fun token_search :: "string \<Rightarrow> string option" where
  "token_search [] = None"
| "token_search (c # cs) =
     (if token_match_at (c # cs) then Some (take 14 (c # cs)) else token_search cs)"

text \<open>\<open>m.group(0)[1:-1]\<close>: the match without its brackets.\<close>

definition group_inner :: "string \<Rightarrow> string" where
  "group_inner m = butlast (tl m)"

section \<open>The log store (db.py)\<close>

text \<open>
  The three tables of \<open>DDL_MAIL_LOG\<close>, \<open>DDL_REPLY_LOG\<close> and \<open>DDL_ATTACHMENT_LOG\<close>.
  A column holds a value or NULL (\<open>None\<close>), as none is declared NOT NULL. The
  \<open>id INTEGER PRIMARY KEY AUTOINCREMENT\<close> column is represented by the position of
  a row in its table: a table is the list of its rows in ascending \<open>id\<close>, and a new
  row, which gets an \<open>id\<close> above every earlier one, goes to the end. Each caller in
  the repository passes a dict that binds every named parameter of the statement,
  so a row is a record of all columns.
\<close>

record mail_row =
  m_email :: "string option"
  m_company :: "string option"
  m_token :: "string option"
  m_subject :: "string option"
  m_entryid :: "string option"
  m_conversation_id :: "string option"
  m_sent_on :: "string option"
  m_status :: "string option"
  m_collection_id :: "string option"
  m_product_desc :: "string option"

record reply_row =
  r_token :: "string option"
  r_company :: "string option"
  r_from_email :: "string option"
  r_received_on :: "string option"
  r_has_attachments :: "int option"
  r_parse_ok :: "int option"
  r_parse_json :: "string option"
  r_collection_id :: "string option"
  r_product_desc :: "string option"

record attachment_row =
  a_token :: "string option"
  a_msg_entryid :: "string option"
  a_received_on :: "string option"
  a_file_name :: "string option"
  a_file_ext :: "string option"
  a_file_size_bytes :: "int option"
  a_saved_path :: "string option"
  a_sha256 :: "string option"
  a_created_at :: "string option"

record db =
  mail_log :: "mail_row list"
  reply_log :: "reply_row list"
  attachment_log :: "attachment_row list"

definition empty_db :: db where
  "empty_db = \<lparr>mail_log = [], reply_log = [], attachment_log = []\<rparr>"

text \<open>
  \<open>token TEXT UNIQUE\<close>: two rows conflict when their tokens are equal and not NULL
  (SQL's UNIQUE treats NULLs as distinct from one another).
\<close>

definition mail_conflict :: "mail_row \<Rightarrow> mail_row \<Rightarrow> bool" where
  "mail_conflict new old = (m_token new \<noteq> None \<and> m_token old = m_token new)"

text \<open>
  \<open>insert_mail_log\<close>: \<open>INSERT OR REPLACE\<close> deletes the rows the new one conflicts
  with, then inserts it.
\<close>

definition insert_mail_log :: "mail_row \<Rightarrow> db \<Rightarrow> db" where
  "insert_mail_log row d =
     d\<lparr>mail_log := filter (\<lambda>old. \<not> mail_conflict row old) (mail_log d) @ [row]\<rparr>"

text \<open>\<open>UNIQUE(token, from_email, received_on)\<close>, with the same treatment of NULL.\<close>

definition reply_key :: "reply_row \<Rightarrow> string option \<times> string option \<times> string option" where
  "reply_key r = (r_token r, r_from_email r, r_received_on r)"

definition key_not_null :: "reply_row \<Rightarrow> bool" where
  "key_not_null r = (r_token r \<noteq> None \<and> r_from_email r \<noteq> None \<and> r_received_on r \<noteq> None)"

definition reply_conflict :: "reply_row \<Rightarrow> reply_row \<Rightarrow> bool" where
  "reply_conflict new old = (key_not_null new \<and> reply_key old = reply_key new)"

text \<open>\<open>insert_reply_log\<close>: \<open>INSERT OR IGNORE\<close> skips a row that conflicts with one present.\<close>

definition insert_reply_log :: "reply_row \<Rightarrow> db \<Rightarrow> db" where
  "insert_reply_log row d =
     (if list_ex (reply_conflict row) (reply_log d) then d
      else d\<lparr>reply_log := reply_log d @ [row]\<rparr>)"

text \<open>\<open>insert_attachment_log\<close>: a plain \<open>INSERT\<close> into a table without constraints.\<close>

definition insert_attachment_log :: "attachment_row \<Rightarrow> db \<Rightarrow> db" where
  "insert_attachment_log row d = d\<lparr>attachment_log := attachment_log d @ [row]\<rparr>"

text \<open>\<open>ORDER BY id DESC LIMIT ?\<close>.\<close>

definition fetch_mail_logs :: "nat \<Rightarrow> db \<Rightarrow> mail_row list" where
  "fetch_mail_logs limit d = take limit (rev (mail_log d))"

definition fetch_reply_logs :: "nat \<Rightarrow> db \<Rightarrow> reply_row list" where
  "fetch_reply_logs limit d = take limit (rev (reply_log d))"

text \<open>\<open>WHERE token = ? ORDER BY id DESC LIMIT 1\<close>: the newest row with that token.\<close>

definition latest_by_token :: "string \<Rightarrow> db \<Rightarrow> mail_row option" where
  "latest_by_token token d = find (\<lambda>r. m_token r = Some token) (rev (mail_log d))"

definition get_company_by_token :: "string \<Rightarrow> db \<Rightarrow> string" where
  "get_company_by_token token d =
     (case latest_by_token token d of None \<Rightarrow> [] | Some r \<Rightarrow> or_else (m_company r) [])"

record mail_meta =
  meta_company :: string
  meta_collection_id :: string
  meta_product_desc :: string

definition get_mail_meta_by_token :: "string \<Rightarrow> db \<Rightarrow> mail_meta" where
  "get_mail_meta_by_token token d =
     (case latest_by_token token d of
        None \<Rightarrow> \<lparr>meta_company = [], meta_collection_id = [], meta_product_desc = []\<rparr>
      | Some r \<Rightarrow> \<lparr>meta_company = or_else (m_company r) [],
                   meta_collection_id = or_else (m_collection_id r) [],
                   meta_product_desc = or_else (m_product_desc r) []\<rparr>)"







definition rows_with_token :: "string \<Rightarrow> db \<Rightarrow> mail_row list" where
  "rows_with_token t d = filter (\<lambda>r. m_token r = Some t) (mail_log d)"


text \<open>The rows of the reply log with a given key, and the table's UNIQUE constraint.\<close>

definition rows_with_key :: "reply_row \<Rightarrow> db \<Rightarrow> reply_row list" where
  "rows_with_key row d = filter (\<lambda>r. reply_key r = reply_key row) (reply_log d)"

definition reply_log_unique :: "db \<Rightarrow> bool" where
  "reply_log_unique d = distinct (map reply_key (filter key_not_null (reply_log d)))"

text \<open>Example rows, used to instantiate the statements about the store.\<close>

definition ex_reply :: reply_row where
  "ex_reply = \<lparr>r_token = Some ''ABA#12AB34CD'', r_company = Some ''Acme'',
     r_from_email = Some ''bob@acme.test'', r_received_on = Some ''2025-01-02 10:00:00'',
     r_has_attachments = Some 0, r_parse_ok = Some 0, r_parse_json = Some ''{}'',
     r_collection_id = Some ''T1'', r_product_desc = Some ''bolts''\<rparr>"

definition ex_db :: db where
  "ex_db = empty_db\<lparr>reply_log := [ex_reply\<lparr>r_from_email := Some ''eve@acme.test''\<rparr>]\<rparr>"

definition ex_mail :: mail_row where
  "ex_mail = \<lparr>m_email = Some ''a@x.com'', m_company = Some ''Acme'',
     m_token = Some ''ABA#12AB34CD'', m_subject = Some ''[ABA#12AB34CD] Invitation'',
     m_entryid = Some [], m_conversation_id = Some [], m_sent_on = Some ''2025-01-01'',
     m_status = Some ''SENT'', m_collection_id = Some ''T1'', m_product_desc = Some ''bolts''\<rparr>"


section \<open>File names and paths (poller.py, lines 167-192)\<close>

text \<open>The class \<open>[\\/:*?"<>|]\<close> of \<open>_sanitize_filename\<close>.\<close>

definition is_illegal :: "char \<Rightarrow> bool" where
  "is_illegal c = (code c \<in> {34, 42, 47, 58, 60, 62, 63, 92, 124})"

text \<open>
  \<open>re.sub(r'[\\/:*?"<>|]+', "_", name)\<close>: every maximal run of illegal characters
  becomes one underscore.
\<close>

function sub_illegal :: "string \<Rightarrow> string" where
  "sub_illegal [] = []"
| "sub_illegal (c # cs) =
     (if is_illegal c then CHR ''_'' # sub_illegal (dropWhile is_illegal cs)
      else c # sub_illegal cs)"
  by pat_completeness auto
termination
  by (relation "measure length") (auto simp: length_dropWhile_le le_imp_less_Suc)

definition sanitize_filename :: "string \<Rightarrow> string" where
  "sanitize_filename name =
     (let s = py_strip (sub_illegal name) in if s = [] then ''attachment'' else s)"

text \<open>
  \<open>str.lower()\<close> on code points below 256: the ASCII capitals and the Latin-1
  capitals (U+00C0..U+00DE without the multiplication sign) move up by 32.
\<close>

definition py_lower_char :: "char \<Rightarrow> char" where
  "py_lower_char c =
     (if (65 \<le> code c \<and> code c \<le> 90) \<or> (192 \<le> code c \<and> code c \<le> 222 \<and> code c \<noteq> 215)
      then char_of (code c + 32) else c)"

definition py_lower :: "string \<Rightarrow> string" where
  "py_lower s = map py_lower_char s"

text \<open>
  The program drives Outlook through win32com, so \<open>os.path\<close> is \<open>ntpath\<close>: the
  separator is the backslash and the alternative separator the slash.
\<close>

definition SEP :: char where
  "SEP = char_of (92 :: nat)"

definition ALTSEP :: char where
  "ALTSEP = CHR ''/''"

text \<open>\<open>p.rfind(c)\<close>: the last index of \<open>c\<close> in \<open>p\<close>, or -1.\<close>

fun rfind_from :: "char \<Rightarrow> string \<Rightarrow> int \<Rightarrow> int \<Rightarrow> int" where
  "rfind_from c [] i found = found"
| "rfind_from c (x # xs) i found = rfind_from c xs (i + 1) (if x = c then i else found)"

definition rfind :: "char \<Rightarrow> string \<Rightarrow> int" where
  "rfind c p = rfind_from c p 0 (- 1)"

text \<open>
  \<open>os.path.splitext\<close> (\<open>genericpath._splitext\<close>): split at the last dot of the
  last path component, unless that component has only dots before it.
\<close>

definition splitext :: "string \<Rightarrow> string \<times> string" where
  "splitext p =
     (let sepIndex = max (rfind SEP p) (rfind ALTSEP p);
          dotIndex = rfind CHR ''.'' p
      in if dotIndex > sepIndex \<and>
            list_ex (\<lambda>k. p ! k \<noteq> CHR ''.'') [nat (sepIndex + 1)..<nat dotIndex]
         then (take (nat dotIndex) p, drop (nat dotIndex) p)
         else (p, []))"

text \<open>
  \<open>os.path.join(a, b)\<close> for a second argument without drive or root, which is
  what a sanitized name is: it holds neither separator nor colon.
\<close>

definition os_path_join :: "string \<Rightarrow> string \<Rightarrow> string" where
  "os_path_join a b =
     (if a = [] then b
      else if last a = SEP \<or> last a = ALTSEP \<or> last a = CHR '':'' then a @ b
      else a @ [SEP] @ b)"

text \<open>
  \<open>str(base / part)\<close> of pathlib for a sanitized \<open>part\<close> and a base directory that
  is not a root (\<open>ATTACH_BASE_DIR\<close> ends with the component \<open>attachments\<close>):
  pathlib drops a component that is a single dot.
\<close>

definition path_div :: "string \<Rightarrow> string \<Rightarrow> string" where
  "path_div base part = (if part = ''.'' then base else base @ [SEP] @ part)"

section \<open>The file system\<close>

text \<open>
  The files that exist, each with its content, oldest first. Path comparison is
  exact. Creating a directory (\<open>mkdir\<close>) adds no file and is assumed to succeed.
\<close>

type_synonym fs = "(string \<times> string) list"

definition path_exists :: "fs \<Rightarrow> string \<Rightarrow> bool" where
  "path_exists files p = (p \<in> fst ` set files)"

definition write_file :: "fs \<Rightarrow> string \<Rightarrow> string \<Rightarrow> fs" where
  "write_file files p content = filter (\<lambda>e. fst e \<noteq> p) files @ [(p, content)]"

section \<open>Collision-free names (poller.py, \<open>_unique_path\<close>, lines 172-180)\<close>

text \<open>
  The loop of \<open>_unique_path\<close> ends because the directory holds finitely many files
  and the candidate names \<open>name(1)ext\<close>, \<open>name(2)ext\<close>, ... are pairwise distinct;
  that rests on \<open>str\<close> being injective on the natural numbers.
\<close>

lemma code_digit_char: "d < 10 \<Longrightarrow> code (digit_char d) = 48 + d"
  by (simp add: code_def digit_char_def)

definition read_nat :: "string \<Rightarrow> nat" where
  "read_nat s = foldl (\<lambda>a c. 10 * a + (code c - 48)) 0 s"

lemma read_show_nat: "read_nat (show_nat n) = n"
proof (induction n rule: show_nat.induct)
  case (1 n)
  show ?case
  proof (cases "n < 10")
    case True
    then show ?thesis
      by (subst show_nat.simps) (simp add: read_nat_def code_digit_char)
  next
    case False
    with 1 have "read_nat (show_nat (n div 10)) = n div 10" by simp
    with False show ?thesis
      by (subst show_nat.simps) (simp add: read_nat_def code_digit_char)
  qed
qed

lemma inj_show_nat: "inj show_nat"
  by (rule inj_on_inverseI [where g = read_nat]) (rule read_show_nat)

lemma os_path_join_inject: "os_path_join a b = os_path_join a c \<Longrightarrow> b = c"
  by (auto simp: os_path_join_def split: if_splits)

text \<open>\<open>os.path.join(dest_dir, f"{name}({idx}){ext}")\<close>.\<close>

definition candidate :: "string \<Rightarrow> string \<Rightarrow> string \<Rightarrow> nat \<Rightarrow> string" where
  "candidate dest_dir name ext idx =
     os_path_join dest_dir (name @ ''('' @ show_nat idx @ '')'' @ ext)"

lemma inj_candidate: "inj (candidate d name ext)"
proof (rule injI)
  fix j k assume "candidate d name ext j = candidate d name ext k"
  then have "name @ ''('' @ show_nat j @ '')'' @ ext = name @ ''('' @ show_nat k @ '')'' @ ext"
    unfolding candidate_def by (rule os_path_join_inject)
  then have "show_nat j = show_nat k" by simp
  then show "j = k" using inj_show_nat by (simp add: inj_eq)
qed

text \<open>The candidates from \<open>idx\<close> on that exist: the loop's variant.\<close>

definition taken_from :: "fs \<Rightarrow> string \<Rightarrow> string \<Rightarrow> string \<Rightarrow> nat \<Rightarrow> nat set" where
  "taken_from files d name ext idx = {k. idx \<le> k \<and> path_exists files (candidate d name ext k)}"

lemma finite_taken_from: "finite (taken_from files d name ext idx)"
proof -
  have "finite (candidate d name ext -` (fst ` set files))"
    by (rule finite_vimageI) (simp_all add: inj_candidate)
  moreover have "taken_from files d name ext idx \<subseteq> candidate d name ext -` (fst ` set files)"
    by (auto simp: taken_from_def path_exists_def)
  ultimately show ?thesis by (rule rev_finite_subset)
qed

lemma taken_from_step:
  "card (taken_from files d name ext idx) =
   card (taken_from files d name ext (Suc idx))
     + (if path_exists files (candidate d name ext idx) then 1 else 0)"
proof (cases "path_exists files (candidate d name ext idx)")
  case True
  have "taken_from files d name ext idx = insert idx (taken_from files d name ext (Suc idx))"
    using True by (auto simp: taken_from_def le_Suc_eq)
  moreover have "idx \<notin> taken_from files d name ext (Suc idx)"
    by (simp add: taken_from_def)
  ultimately show ?thesis using True finite_taken_from by simp
next
  case False
  have "taken_from files d name ext idx = taken_from files d name ext (Suc idx)"
    using False by (auto simp: taken_from_def Suc_le_eq order_less_le)
  then show ?thesis using False by simp
qed

definition unique_measure :: "fs \<times> string \<times> string \<times> string \<times> string \<times> nat \<Rightarrow> nat" where
  "unique_measure = (\<lambda>(files, d, name, ext, p, idx).
     card (taken_from files d name ext idx) + (if path_exists files p then 1 else 0))"

lemma unique_loop_measure:
  "path_exists files p \<Longrightarrow>
   ((files, d, name, ext, candidate d name ext idx, idx + 1), (files, d, name, ext, p, idx))
     \<in> measure unique_measure"
  by (simp add: unique_measure_def taken_from_step [of files d name ext idx])

function unique_loop :: "fs \<Rightarrow> string \<Rightarrow> string \<Rightarrow> string \<Rightarrow> string \<Rightarrow> nat \<Rightarrow> string" where
  "unique_loop files dest_dir name ext p idx =
     (if path_exists files p
      then unique_loop files dest_dir name ext (candidate dest_dir name ext idx) (idx + 1)
      else p)"
  by pat_completeness auto
termination
  by (relation "measure unique_measure") (simp, rule unique_loop_measure, assumption)

declare unique_loop.simps [simp del]

text \<open>\<open>_unique_path(dest_dir, base_name)\<close>.\<close>

definition unique_path :: "fs \<Rightarrow> string \<Rightarrow> string \<Rightarrow> string" where
  "unique_path files dest_dir base_name =
     (let (name, ext) = splitext base_name;
          p = os_path_join dest_dir base_name
      in unique_loop files dest_dir name ext p 1)"

text \<open>The path \<open>name(k)ext\<close> in directory \<open>d\<close> for the target file name \<open>b\<close>.\<close>

definition numbered :: "string \<Rightarrow> string \<Rightarrow> nat \<Rightarrow> string" where
  "numbered d b k = candidate d (fst (splitext b)) (snd (splitext b)) k"

section \<open>The mailbox as the scanner reads it\<close>

text \<open>
  A read of a COM property or a COM call that the source wraps in \<open>try\<close> either
  raises or yields a value. Reads that the source does not guard (\<open>Subject\<close>,
  \<open>Body\<close>) are taken to return.
\<close>

datatype 'a com = Raises | Value 'a

text \<open>
  An attachment: its \<open>FileName\<close> (the empty string stands for \<open>None\<close> too), its
  \<open>Size\<close>, the bytes \<open>SaveAsFile\<close> would write, and whether \<open>SaveAsFile\<close> succeeds.
\<close>

record attachment =
  att_FileName :: "string com"
  att_Size :: "int com"
  att_data :: string
  att_saves :: bool

text \<open>\<open>item.Sender\<close>: the address of its Exchange user, if it has one, and \<open>Address\<close>.\<close>

record sender =
  snd_PrimarySmtpAddress :: "string option com"
  snd_Address :: "string com"

text \<open>
  A mail item. \<open>it_Attachments\<close> is \<open>None\<close> when the item has no attachment
  collection or reading it raises; an element \<open>Raises\<close> is an attachment that
  \<open>Attachments.Item(i)\<close> fails to return. \<open>it_ReceivedTime\<close> is the time as \<open>str\<close>
  prints it.
\<close>

record mail_item =
  it_Subject :: "string option"
  it_Body :: "string option"
  it_HTMLBody :: "string option com"
  it_Sender :: "sender option com"
  it_SenderEmailAddress :: "string option com"
  it_ReceivedTime :: "string com"
  it_EntryID :: "string option com"
  it_Attachments :: "attachment com list option"

text \<open>
  A folder: \<open>Raises\<close> when \<open>folder.Items\<close> or its sort raises, else its items,
  newest first, where an element \<open>Raises\<close> is an item \<open>items.Item(i)\<close> fails to
  return. The mailbox gives the folders \<open>_iter_configured_folders\<close> resolves and
  the ones \<open>_iter_default_folders\<close> yields.
\<close>

type_synonym folder = "mail_item com list com"

record mailbox =
  configured_folders :: "folder list"
  default_folders :: "folder list"

text \<open>The settings of config.py that the scanner reads.\<close>

record config =
  POLL_MAX_SCAN :: int
  ATTACH_BASE_DIR :: string
  MAX_ATTACH_SIZE_MB :: int

definition config_py :: "string \<Rightarrow> config" where
  "config_py base = \<lparr>POLL_MAX_SCAN = 400, ATTACH_BASE_DIR = base, MAX_ATTACH_SIZE_MB = 50\<rparr>"

text \<open>
  What the scanner takes from outside: the hash function (\<open>hashlib.sha256\<close>, as a
  hex digest), the clock (\<open>datetime.now(timezone.utc).isoformat()\<close>), and the
  \<open>parse_json\<close> payload that lines 368-385 compute from the subject, the plain
  body and the HTML body (tag stripping, truncation and \<open>json.dumps\<close>, which no
  property below depends on).
\<close>

record env =
  sha256 :: "string \<Rightarrow> string"
  now_iso :: string
  parse_payload :: "string \<Rightarrow> string \<Rightarrow> string option com \<Rightarrow> string"

text \<open>The state a scan changes: the files on disk and the log store.\<close>

record store =
  st_files :: fs
  st_db :: db

section \<open>Attachment capture (poller.py, lines 183-289)\<close>

text \<open>\<open>_sha256_of_file\<close>: the digest of the file's content, or \<open>""\<close> if it cannot be read.\<close>

definition sha256_of_file :: "env \<Rightarrow> fs \<Rightarrow> string \<Rightarrow> string" where
  "sha256_of_file e files path =
     (case map_of files path of None \<Rightarrow> [] | Some content \<Rightarrow> sha256 e content)"

text \<open>The values \<open>_save_attachments\<close> computes once per message.\<close>

record capture =
  cap_token :: string
  cap_msg_entryid :: string
  cap_received_on :: string
  cap_safe_company :: string
  cap_safe_token :: string
  cap_dest_dir :: string

definition attachment_record ::
  "env \<Rightarrow> capture \<Rightarrow> string \<Rightarrow> string \<Rightarrow> int \<Rightarrow> string \<Rightarrow> string \<Rightarrow> attachment_row" where
  "attachment_record e c target_fname ext fsize path sha =
     \<lparr>a_token = Some (cap_token c), a_msg_entryid = Some (cap_msg_entryid c),
      a_received_on = Some (cap_received_on c), a_file_name = Some target_fname,
      a_file_ext = Some ext, a_file_size_bytes = Some fsize,
      a_saved_path = Some path, a_sha256 = Some sha, a_created_at = Some (now_iso e)\<rparr>"

text \<open>
  The body of the loop over \<open>range(1, atts.Count + 1)\<close> for the \<open>i\<close>-th attachment:
  the pair is the running \<open>saved\<close> count and the store.
\<close>

definition save_attachment ::
  "config \<Rightarrow> env \<Rightarrow> capture \<Rightarrow> nat \<Rightarrow> attachment com \<Rightarrow> nat \<times> store \<Rightarrow> nat \<times> store" where
  "save_attachment cfg e c i a acc =
     (case a of
        Raises \<Rightarrow> acc
      | Value att \<Rightarrow>
          (let saved = fst acc; s = snd acc;
               orig_fname =
                 (case att_FileName att of
                    Raises \<Rightarrow> ''attachment_'' @ show_nat i
                  | Value n \<Rightarrow>
                      sanitize_filename (if n = [] then ''attachment_'' @ show_nat i else n));
               fsize = (case att_Size att of Raises \<Rightarrow> 0 | Value n \<Rightarrow> n);
               ext = py_lower (snd (splitext orig_fname));
               name_core =
                 (if cap_safe_company c \<noteq> [] then cap_safe_company c @ ''_'' @ cap_safe_token c
                  else cap_safe_token c);
               target_fname = name_core @ ext
           in if MAX_ATTACH_SIZE_MB cfg \<noteq> 0 \<and> fsize > MAX_ATTACH_SIZE_MB cfg * 1024 * 1024
              then (saved,
                    s\<lparr>st_db := insert_attachment_log
                       (attachment_record e c target_fname ext fsize [] []) (st_db s)\<rparr>)
              else
                (let save_path = unique_path (st_files s) (cap_dest_dir c) target_fname
                 in if \<not> att_saves att
                    then (saved,
                          s\<lparr>st_db := insert_attachment_log
                             (attachment_record e c target_fname ext fsize [] []) (st_db s)\<rparr>)
                    else
                      (let files' = write_file (st_files s) save_path (att_data att);
                           sha = sha256_of_file e files' save_path
                       in (saved + 1,
                           s\<lparr>st_files := files',
                             st_db := insert_attachment_log
                               (attachment_record e c target_fname ext fsize save_path sha)
                               (st_db s)\<rparr>)))))"

fun save_loop ::
  "config \<Rightarrow> env \<Rightarrow> capture \<Rightarrow> nat \<Rightarrow> attachment com list \<Rightarrow> nat \<times> store \<Rightarrow> nat \<times> store" where
  "save_loop cfg e c i [] acc = acc"
| "save_loop cfg e c i (a # atts) acc =
     save_loop cfg e c (i + 1) atts (save_attachment cfg e c i a acc)"

text \<open>The destination directory: \<open>ATTACH_BASE_DIR / safe_collection\<close>.\<close>

definition dest_dir_of :: "config \<Rightarrow> string \<Rightarrow> string" where
  "dest_dir_of cfg collection_id =
     path_div (ATTACH_BASE_DIR cfg)
       (sanitize_filename (if collection_id = [] then ''uncategorized'' else collection_id))"

text \<open>\<open>_save_attachments\<close>: the count of files saved, and the store afterwards.\<close>

definition save_attachments ::
  "config \<Rightarrow> env \<Rightarrow> string \<Rightarrow> string \<Rightarrow> string \<Rightarrow> mail_item \<Rightarrow> string \<Rightarrow> string \<Rightarrow> store
     \<Rightarrow> nat \<times> store" where
  "save_attachments cfg e company token collection_id msg msg_entryid received_on s =
     (case it_Attachments msg of
        None \<Rightarrow> (0, s)
      | Some atts \<Rightarrow>
          if length atts = 0 then (0, s)
          else
            (let c = \<lparr>cap_token = token, cap_msg_entryid = msg_entryid,
                       cap_received_on = received_on,
                       cap_safe_company = sanitize_filename company,
                       cap_safe_token = sanitize_filename token,
                       cap_dest_dir = dest_dir_of cfg collection_id\<rparr>
             in save_loop cfg e c 1 atts (0, s)))"

section \<open>The scan (poller.py, \<open>poll_inbox\<close>, lines 292-410)\<close>

text \<open>\<open>_sender_email\<close>: the Exchange address, else \<open>Sender.Address\<close>, else the raw address.\<close>

definition sender_email :: "mail_item \<Rightarrow> string" where
  "sender_email it =
     (let fallback = (case it_SenderEmailAddress it of Raises \<Rightarrow> [] | Value v \<Rightarrow> or_else v [])
      in case it_Sender it of
           Value (Some sd) \<Rightarrow>
             (case snd_PrimarySmtpAddress sd of
                Value (Some a) \<Rightarrow> (if a \<noteq> [] then a else
                   (case snd_Address sd of Value b \<Rightarrow> (if b \<noteq> [] then b else fallback)
                    | Raises \<Rightarrow> fallback))
              | _ \<Rightarrow>
                   (case snd_Address sd of Value b \<Rightarrow> (if b \<noteq> [] then b else fallback)
                    | Raises \<Rightarrow> fallback))
         | _ \<Rightarrow> fallback)"

text \<open>Python's truth value of \<open>token\<close>: neither \<open>None\<close> nor empty.\<close>

definition truthy :: "string option \<Rightarrow> bool" where
  "truthy t = (case t of None \<Rightarrow> False | Some s \<Rightarrow> s \<noteq> [])"

text \<open>
  Lines 328-343: the token of an item. The subject is searched first, the plain
  body only if the subject has no match, the HTML body only if neither has.
\<close>

definition extract_token :: "mail_item \<Rightarrow> string option" where
  "extract_token it =
     (let subj = or_else (it_Subject it) [];
          body_plain = or_else (it_Body it) [];
          m = (case token_search subj of Some x \<Rightarrow> Some x | None \<Rightarrow> token_search body_plain);
          token = map_option group_inner m
      in if truthy token then token
         else
           (let body_html = (case it_HTMLBody it of Raises \<Rightarrow> [] | Value v \<Rightarrow> or_else v [])
            in case token_search body_html of
                 Some x \<Rightarrow> Some (group_inner x)
               | None \<Rightarrow> token))"

text \<open>The counters and the store while a scan runs.\<close>

record scan =
  hits :: nat
  scanned :: nat
  sc_store :: store

definition has_attachments_of :: "mail_item \<Rightarrow> int" where
  "has_attachments_of it =
     (case it_Attachments it of None \<Rightarrow> 0 | Some atts \<Rightarrow> (if length atts > 0 then 1 else 0))"

text \<open>
  Lines 328-408: the body of the loop for an item that \<open>items.Item(i)\<close> returned.
  An item without a token takes the \<open>continue\<close> of line 346; both counters are
  incremented after \<open>insert_reply_log\<close>, on lines 399 and 400.
\<close>

definition scan_item :: "config \<Rightarrow> env \<Rightarrow> mail_item \<Rightarrow> scan \<Rightarrow> scan" where
  "scan_item cfg e it sc =
     (case extract_token it of
        None \<Rightarrow> sc
      | Some token \<Rightarrow>
          if token = [] then sc
          else
           (let subj = or_else (it_Subject it) [];
                body_plain = or_else (it_Body it) [];
                meta = get_mail_meta_by_token token (st_db (sc_store sc));
                company = meta_company meta;
                collection_id = meta_collection_id meta;
                product_desc = meta_product_desc meta;
                from_email = sender_email it;
                has_attachments = has_attachments_of it;
                received_on = (case it_ReceivedTime it of Raises \<Rightarrow> now_iso e | Value t \<Rightarrow> t);
                row = \<lparr>r_token = Some token, r_company = Some company,
                        r_from_email = Some from_email, r_received_on = Some received_on,
                        r_has_attachments = Some has_attachments, r_parse_ok = Some 0,
                        r_parse_json = Some (parse_payload e subj body_plain (it_HTMLBody it)),
                        r_collection_id = Some collection_id,
                        r_product_desc = Some product_desc\<rparr>;
                s1 = (sc_store sc)\<lparr>st_db := insert_reply_log row (st_db (sc_store sc))\<rparr>;
                sc1 = sc\<lparr>hits := hits sc + 1, scanned := scanned sc + 1, sc_store := s1\<rparr>
            in if has_attachments \<noteq> 0
               then
                 (let msg_entryid = (case it_EntryID it of Raises \<Rightarrow> [] | Value v \<Rightarrow> or_else v [])
                  in sc1\<lparr>sc_store := snd (save_attachments cfg e company token collection_id it
                                             msg_entryid received_on s1)\<rparr>)
               else sc1))"

text \<open>The loop over \<open>range(1, count + 1)\<close>: an item that cannot be fetched is passed over.\<close>

fun scan_items :: "config \<Rightarrow> env \<Rightarrow> mail_item com list \<Rightarrow> scan \<Rightarrow> scan" where
  "scan_items cfg e [] sc = sc"
| "scan_items cfg e (Raises # items) sc = scan_items cfg e items sc"
| "scan_items cfg e (Value it # items) sc = scan_items cfg e items (scan_item cfg e it sc)"

text \<open>One folder: at most \<open>min(POLL_MAX_SCAN, items.Count)\<close> items, from the newest.\<close>

definition scan_folder :: "config \<Rightarrow> env \<Rightarrow> folder \<Rightarrow> scan \<Rightarrow> scan" where
  "scan_folder cfg e f sc =
     (case f of
        Raises \<Rightarrow> sc
      | Value items \<Rightarrow>
          (let count = min (POLL_MAX_SCAN cfg) (int (length items))
           in scan_items cfg e (take (nat count) items) sc))"

fun scan_folders :: "config \<Rightarrow> env \<Rightarrow> folder list \<Rightarrow> scan \<Rightarrow> scan" where
  "scan_folders cfg e [] sc = sc"
| "scan_folders cfg e (f # fs) sc = scan_folders cfg e fs (scan_folder cfg e f sc)"

text \<open>The counters \<open>poll_inbox\<close> returns.\<close>

record counters =
  cnt_scanned :: nat
  cnt_matched :: nat

definition candidate_folders :: "mailbox \<Rightarrow> folder list" where
  "candidate_folders mb =
     (if configured_folders mb = [] then default_folders mb else configured_folders mb)"

definition poll_inbox :: "config \<Rightarrow> env \<Rightarrow> mailbox \<Rightarrow> store \<Rightarrow> counters \<times> store" where
  "poll_inbox cfg e mb s =
     (let sc = scan_folders cfg e (candidate_folders mb) \<lparr>hits = 0, scanned = 0, sc_store = s\<rparr>
      in (\<lparr>cnt_scanned = scanned sc, cnt_matched = hits sc\<rparr>, sc_store sc))"

text \<open>An example item: a reply with the given subject and bodies, without attachments.\<close>

definition reply_item :: "string \<Rightarrow> string \<Rightarrow> string \<Rightarrow> mail_item" where
  "reply_item subj body html =
     \<lparr>it_Subject = Some subj, it_Body = Some body, it_HTMLBody = Value (Some html),
      it_Sender = Value None, it_SenderEmailAddress = Value (Some ''bob@acme.test''),
      it_ReceivedTime = Value ''2025-01-02 10:00:00'', it_EntryID = Value (Some ''E1''),
      it_Attachments = None\<rparr>"

text \<open>
  An example environment (the hash is a stand-in that tags the content) and an
  example mailbox: one configured folder holding a message without a token and,
  older, a reply to the message sent with token \<open>ABA#12AB34CD\<close>.
\<close>

definition ex_env :: env where
  "ex_env = \<lparr>sha256 = (\<lambda>content. ''sha256:'' @ content),
              now_iso = ''2025-01-03T00:00:00+00:00'',
              parse_payload = (\<lambda>subj body html. subj)\<rparr>"

definition ex_mailbox :: mailbox where
  "ex_mailbox =
     \<lparr>configured_folders =
        [Value [Value (reply_item ''Lunch on Friday?'' ''See you there'' ''<p>See you there</p>''),
                Value (reply_item ''[ABA#12AB34CD] Re: Invitation'' ''We accept'' []) ]],
      default_folders = []\<rparr>"

definition ex_store :: store where
  "ex_store = \<lparr>st_files = [], st_db = empty_db\<lparr>mail_log := [ex_mail]\<rparr>\<rparr>"



section \<open>Vocabulary for the attachment records\<close>










section \<open>Outbound sending (mailer.py)\<close>

definition DEFAULT_CC :: string where
  "DEFAULT_CC = []"

definition USER_PROP_TOKEN :: string where
  "USER_PROP_TOKEN = ''ABATrackingToken''"

text \<open>A message as \<open>send_one\<close> composes it, and an item of the Sent Items folder.\<close>

record mail =
  mail_To :: string
  mail_CC :: string
  mail_Subject :: string
  mail_HTMLBody :: string
  mail_UserProperties :: "(string \<times> string) list"
  mail_Attachments :: "string list"

record sent_item =
  si_Subject :: "string option"
  si_EntryID :: "string option"
  si_ConversationID :: "string option"
  si_SentOn :: string

text \<open>
  What the sender takes from outside. \<open>setup_ok\<close>: \<open>Dispatch\<close>, \<open>_ensure_session\<close>
  and \<open>_load_template\<close> succeed. \<open>render\<close>: the template applied to supplier name,
  token, collection id and product description. \<open>user_props_ok\<close>: the three
  \<open>UserProperties.Add\<close> calls succeed. \<open>attachable\<close>: the path is an existing file
  and \<open>Attachments.Add\<close> accepts it. \<open>submits\<close>: \<open>CreateItem\<close>, the assignments,
  \<open>Save\<close> and \<open>Send\<close> go through for this message. \<open>sent_folder\<close>: the Sent Items
  folder as Outlook shows it, newest first, once the given messages have been
  submitted; an element \<open>Raises\<close> is an item that cannot be read. \<open>utc_now\<close>: the
  clock. \<open>uuid4\<close>: the \<open>k\<close>-th value that \<open>uuid.uuid4()\<close> draws.
\<close>

record outlook =
  setup_ok :: bool
  render :: "string \<Rightarrow> string \<Rightarrow> string \<Rightarrow> string \<Rightarrow> string com"
  user_props_ok :: bool
  attachable :: "string \<Rightarrow> bool"
  submits :: "mail \<Rightarrow> bool"
  sent_folder :: "mail list \<Rightarrow> sent_item com list com"
  utc_now :: string
  uuid4 :: "nat \<Rightarrow> nat"

text \<open>
  The state a send changes: the log store, the messages submitted so far, and
  the number of values drawn from \<open>uuid4\<close>. The store is taken to be reachable:
  \<open>insert_mail_log\<close> does not raise.
\<close>

record world =
  w_db :: db
  w_outbox :: "mail list"
  w_draws :: nat

datatype error = SetupError | RenderError | SendError

text \<open>
  Lines 123-135: the newest of the first 50 sent items whose subject contains
  the token; an exception ends the search without a result.
\<close>

fun find_sent :: "string \<Rightarrow> sent_item com list \<Rightarrow> sent_item option" where
  "find_sent token [] = None"
| "find_sent token (Raises # items) = None"
| "find_sent token (Value it # items) =
     (if contains (or_else (si_Subject it) []) token then Some it else find_sent token items)"

text \<open>
  \<open>send_one\<close>: the token and the subject, or the exception that leaves the
  function, and the state afterwards.
\<close>

definition send_one ::
  "outlook \<Rightarrow> world \<Rightarrow> string \<Rightarrow> string \<Rightarrow> string \<Rightarrow> string \<Rightarrow> string list
     \<Rightarrow> (error + string \<times> string) \<times> world" where
  "send_one ol w to_email company collection_id product_desc attach_paths =
     (let token = issue_token (uuid4 ol (w_draws w));
          w1 = w\<lparr>w_draws := w_draws w + 1\<rparr>;
          subject = make_subject token
      in case render ol (if company = [] then ''Valued Supplier'' else company)
                token collection_id product_desc of
           Raises \<Rightarrow> (Inl RenderError, w1)
         | Value html_body \<Rightarrow>
             (let m = \<lparr>mail_To = to_email,
                       mail_CC = (if DEFAULT_CC \<noteq> [] then DEFAULT_CC else []),
                       mail_Subject = subject,
                       mail_HTMLBody = html_body,
                       mail_UserProperties =
                         (if user_props_ok ol
                          then [(USER_PROP_TOKEN, token), (''CollectionID'', collection_id),
                                (''ProductDescription'', product_desc)]
                          else []),
                       mail_Attachments = filter (attachable ol) attach_paths\<rparr>
              in if \<not> submits ol m then (Inl SendError, w1)
                 else
                   (let w2 = w1\<lparr>w_outbox := w_outbox w1 @ [m]\<rparr>;
                        found =
                          (case sent_folder ol (w_outbox w2) of
                             Raises \<Rightarrow> None
                           | Value items \<Rightarrow> find_sent token (take (min 50 (length items)) items));
                        entryid = (case found of None \<Rightarrow> None | Some it \<Rightarrow> si_EntryID it);
                        conversation_id =
                          (case found of None \<Rightarrow> None | Some it \<Rightarrow> si_ConversationID it);
                        sent_on = (case found of None \<Rightarrow> utc_now ol | Some it \<Rightarrow> si_SentOn it);
                        row = \<lparr>m_email = Some to_email, m_company = Some company,
                                m_token = Some token, m_subject = Some subject,
                                m_entryid = Some (or_else entryid []),
                                m_conversation_id = Some (or_else conversation_id []),
                                m_sent_on = Some sent_on, m_status = Some ''SENT'',
                                m_collection_id = Some collection_id,
                                m_product_desc = Some product_desc\<rparr>
                    in (Inr (token, subject), w2\<lparr>w_db := insert_mail_log row (w_db w2)\<rparr>))))"

text \<open>
  A row of the contacts table: a cell is \<open>None\<close> when it is NaN, \<open>None\<close> or its
  column is missing, else the cell as \<open>str\<close> prints it.
\<close>

record contact =
  c_Email :: "string option"
  c_Company_Name :: "string option"
  c_Collection_ID :: "string option"
  c_Product_description :: "string option"

definition safe_str :: "string option \<Rightarrow> string" where
  "safe_str v = (case v of None \<Rightarrow> [] | Some s \<Rightarrow> py_strip s)"

record send_result =
  res_email :: string
  res_company :: string
  res_collection_id :: string
  res_product_desc :: string
  res_token :: string
  res_subject :: string

text \<open>Lines 177-184: the call of \<open>send_one\<close> for a row with an address.\<close>

definition company_of :: "contact \<Rightarrow> string" where
  "company_of row =
     (let c = safe_str (c_Company_Name row) in if c = [] then ''Valued Supplier'' else c)"

definition send_row ::
  "outlook \<Rightarrow> world \<Rightarrow> contact \<Rightarrow> string list \<Rightarrow> (error + string \<times> string) \<times> world" where
  "send_row ol w row attach_paths =
     send_one ol w (safe_str (c_Email row)) (company_of row) (safe_str (c_Collection_ID row))
       (safe_str (c_Product_description row)) attach_paths"

text \<open>
  The loop of \<open>bulk_send\<close> (lines 171-196). The call of \<open>send_one\<close> stands in no
  \<open>try\<close>: an exception it raises leaves the loop and \<open>bulk_send\<close>. The pause of
  \<open>time.sleep(SEND_THROTTLE)\<close> changes no state.
\<close>

fun bulk_loop ::
  "outlook \<Rightarrow> contact list \<Rightarrow> string list \<Rightarrow> send_result list \<Rightarrow> world
     \<Rightarrow> (error + send_result list) \<times> world" where
  "bulk_loop ol [] attach_paths results w = (Inr results, w)"
| "bulk_loop ol (row # rows) attach_paths results w =
     (if safe_str (c_Email row) = [] then bulk_loop ol rows attach_paths results w
      else
        (case send_row ol w row attach_paths of
           (Inl err, w') \<Rightarrow> (Inl err, w')
         | (Inr (token, subject), w') \<Rightarrow>
             bulk_loop ol rows attach_paths
               (results @
                [\<lparr>res_email = safe_str (c_Email row), res_company = company_of row,
                  res_collection_id = safe_str (c_Collection_ID row),
                  res_product_desc = safe_str (c_Product_description row),
                  res_token = token, res_subject = subject\<rparr>])
               w'))"

definition bulk_send ::
  "outlook \<Rightarrow> world \<Rightarrow> contact list \<Rightarrow> string list \<Rightarrow> (error + send_result list) \<times> world" where
  "bulk_send ol w contacts attach_paths =
     (if \<not> setup_ok ol then (Inl SetupError, w)
      else bulk_loop ol contacts attach_paths [] w)"

text \<open>
  An example: five recipients, and an Outlook that refuses the message to the
  third and shows no sent items.
\<close>

definition ex_contacts :: "contact list" where
  "ex_contacts =
     map (\<lambda>a. \<lparr>c_Email = Some a, c_Company_Name = Some ''Acme'', c_Collection_ID = Some ''T1'',
                c_Product_description = Some ''bolts''\<rparr>)
       [''a1@x.com'', ''a2@x.com'', ''a3@x.com'', ''a4@x.com'', ''a5@x.com'']"

definition ex_outlook :: outlook where
  "ex_outlook =
     \<lparr>setup_ok = True,
      render = (\<lambda>supplier_name token collection_id product_desc. Value (''Dear '' @ supplier_name)),
      user_props_ok = True,
      attachable = (\<lambda>p. True),
      submits = (\<lambda>m. mail_To m \<noteq> ''a3@x.com''),
      sent_folder = (\<lambda>outbox. Value []),
      utc_now = ''2025-01-01T09:00:00+00:00'',
      uuid4 = (\<lambda>k. k)\<rparr>"

definition ex_world :: world where
  "ex_world = \<lparr>w_db = empty_db, w_outbox = [], w_draws = 0\<rparr>"

text \<open>An Outlook in which no step of a send raises.\<close>

definition always_ok :: "outlook \<Rightarrow> bool" where
  "always_ok ol =
     (setup_ok ol \<and> (\<forall>a b c d. render ol a b c d \<noteq> Raises) \<and> (\<forall>m. submits ol m))"

definition emails_of :: "contact list \<Rightarrow> string list" where
  "emails_of contacts = filter (\<lambda>a. a \<noteq> []) (map (\<lambda>r. safe_str (c_Email r)) contacts)"

section \<open>Properties of the log store\<close>

subsection \<open>The reply log\<close>

lemma distinct_map_filter_le1:
  "distinct (map f xs) \<Longrightarrow> length (filter (\<lambda>x. f x = k) xs) \<le> 1"
proof (induction xs)
  case Nil
  then show ?case by simp
next
  case (Cons a xs)
  have "f a \<notin> f ` set xs" using Cons.prems by simp
  then have "f a = k \<Longrightarrow> filter (\<lambda>x. f x = k) xs = []"
    unfolding filter_empty_conv by blast
  moreover have "length (filter (\<lambda>x. f x = k) xs) \<le> 1"
    using Cons by simp
  ultimately show ?case by (cases "f a = k") simp_all
qed

lemma key_not_null_cong: "reply_key r = reply_key row \<Longrightarrow> key_not_null r = key_not_null row"
  by (simp add: reply_key_def key_not_null_def)

lemma rows_with_key_not_null:
  "key_not_null row \<Longrightarrow>
   filter (\<lambda>r. reply_key r = reply_key row) xs =
   filter (\<lambda>r. reply_key r = reply_key row) (filter key_not_null xs)"
  by (induction xs) (auto simp: reply_key_def key_not_null_def)

lemma rows_with_key_le1:
  assumes "reply_log_unique d" "key_not_null row"
  shows "length (rows_with_key row d) \<le> 1"
proof -
  have "length (filter (\<lambda>r. reply_key r = reply_key row) (filter key_not_null (reply_log d))) \<le> 1"
    using assms(1) unfolding reply_log_unique_def by (rule distinct_map_filter_le1)
  then show ?thesis
    unfolding rows_with_key_def using rows_with_key_not_null[OF assms(2)] by simp
qed

lemma conflict_iff_rows:
  "key_not_null row \<Longrightarrow> list_ex (reply_conflict row) (reply_log d) = (rows_with_key row d \<noteq> [])"
  by (auto simp: list_ex_iff reply_conflict_def rows_with_key_def filter_empty_conv)

lemma insert_reply_log_unique:
  assumes "reply_log_unique d"
  shows "reply_log_unique (insert_reply_log row d)"
proof (cases "list_ex (reply_conflict row) (reply_log d)")
  case True
  then show ?thesis using assms by (simp add: insert_reply_log_def)
next
  case False
  show ?thesis
  proof (cases "key_not_null row")
    case True
    with False have "reply_key row \<notin> reply_key ` set (filter key_not_null (reply_log d))"
      by (auto simp: list_ex_iff reply_conflict_def)
    with assms False True show ?thesis
      by (simp add: insert_reply_log_def reply_log_unique_def)
  next
    case nn: False
    with assms False show ?thesis
      by (simp add: insert_reply_log_def reply_log_unique_def)
  qed
qed

lemma rows_with_key_insert:
  assumes "key_not_null row"
  shows "rows_with_key row (insert_reply_log row d) \<noteq> []"
  using assms
  by (auto simp: insert_reply_log_def rows_with_key_def list_ex_iff reply_conflict_def filter_empty_conv)

text \<open>
  Claim C4. Writing a reply record is idempotent on the natural key (token, sender
  address, received time). In a reply log that satisfies its UNIQUE constraint,
  after a row whose three key columns hold values has been inserted, inserting
  any row with the same key again (be the other columns equal or not) changes
  nothing, exactly one row carries that key, and the constraint still holds.
  The scanner binds all three key columns to strings, never to NULL.
\<close>

theorem insert_reply_log_idempotent:
  assumes "reply_log_unique d" and "key_not_null row" and "reply_key row' = reply_key row"
  shows "insert_reply_log row' (insert_reply_log row d) = insert_reply_log row d
       \<and> length (rows_with_key row (insert_reply_log row d)) = 1
       \<and> reply_log_unique (insert_reply_log row d)"
proof -
  let ?d = "insert_reply_log row d"
  have u: "reply_log_unique ?d" using assms(1) by (rule insert_reply_log_unique)
  have ne: "rows_with_key row ?d \<noteq> []" using assms(2) by (rule rows_with_key_insert)
  have le: "length (rows_with_key row ?d) \<le> 1" using u assms(2) by (rule rows_with_key_le1)
  have one: "length (rows_with_key row ?d) = 1"
    using ne le by (cases "rows_with_key row ?d") auto
  have nn': "key_not_null row'" using assms(2,3) key_not_null_cong by blast
  have "rows_with_key row' ?d = rows_with_key row ?d"
    by (simp add: rows_with_key_def assms(3))
  with ne have "list_ex (reply_conflict row') (reply_log ?d)"
    using conflict_iff_rows[OF nn'] by simp
  then have "insert_reply_log row' ?d = ?d"
    by (simp add: insert_reply_log_def)
  with one u show ?thesis by simp
qed

theorem insert_reply_log_idempotent_witness:
  "reply_log_unique ex_db \<and> key_not_null ex_reply
   \<and> reply_key (ex_reply\<lparr>r_parse_ok := Some 1\<rparr>) = reply_key ex_reply
   \<and> insert_reply_log (ex_reply\<lparr>r_parse_ok := Some 1\<rparr>) (insert_reply_log ex_reply ex_db)
       = insert_reply_log ex_reply ex_db
   \<and> length (rows_with_key ex_reply (insert_reply_log ex_reply ex_db)) = 1
   \<and> length (reply_log (insert_reply_log ex_reply ex_db)) = 2"
proof -
  have h1: "reply_log_unique ex_db"
    by (simp add: reply_log_unique_def ex_db_def empty_db_def ex_reply_def key_not_null_def)
  have h2: "key_not_null ex_reply"
    by (simp add: ex_reply_def key_not_null_def)
  have h3: "reply_key (ex_reply\<lparr>r_parse_ok := Some 1\<rparr>) = reply_key ex_reply"
    by (simp add: reply_key_def)
  have h4: "length (reply_log (insert_reply_log ex_reply ex_db)) = 2"
    by (simp add: insert_reply_log_def ex_db_def empty_db_def ex_reply_def reply_conflict_def
        reply_key_def key_not_null_def)
  from insert_reply_log_idempotent [OF h1 h2 h3] h1 h2 h3 h4 show ?thesis by simp
qed

text \<open>
  The hypothesis on the key is needed only for NULL, which SQL's UNIQUE never
  treats as equal to itself: a row with a NULL key column is inserted every time.
\<close>

lemma insert_reply_log_null_key:
  "\<not> key_not_null row \<Longrightarrow>
   reply_log (insert_reply_log row d) = reply_log d @ [row]"
  by (simp add: insert_reply_log_def reply_conflict_def list_ex_iff)

subsection \<open>The send log\<close>








lemma rows_with_token_insert:
  "m_token row = Some t \<Longrightarrow> rows_with_token t (insert_mail_log row d) = [row]"
  by (simp add: rows_with_token_def insert_mail_log_def mail_conflict_def filter_empty_conv)






section \<open>Properties of the collision-free names\<close>

lemma path_exists_write_file:
  "path_exists (write_file files p content) q = (q = p \<or> path_exists files q)"
  by (fastforce simp: path_exists_def write_file_def image_iff)

lemma splitext_append: "fst (splitext p) @ snd (splitext p) = p"
  by (simp add: splitext_def Let_def)

lemma unique_loop_free:
  "\<not> path_exists files p \<Longrightarrow> unique_loop files d name ext p idx = p"
  by (subst unique_loop.simps) simp

lemma unique_loop_taken:
  "path_exists files p \<Longrightarrow>
   unique_loop files d name ext p idx =
   unique_loop files d name ext (candidate d name ext idx) (idx + 1)"
  by (subst unique_loop.simps) simp

lemma unique_loop_result:
  "(\<not> path_exists files p \<and> unique_loop files d name ext p idx = p) \<or>
   (path_exists files p \<and>
    (\<exists>k\<ge>idx. unique_loop files d name ext p idx = candidate d name ext k \<and>
       \<not> path_exists files (candidate d name ext k) \<and>
       (\<forall>j. idx \<le> j \<and> j < k \<longrightarrow> path_exists files (candidate d name ext j))))"
proof (induction files d name ext p idx rule: unique_loop.induct)
  case (1 files d name ext p idx)
  show ?case
  proof (cases "path_exists files p")
    case False
    then show ?thesis by (simp add: unique_loop_free)
  next
    case True
    let ?q = "candidate d name ext idx"
    have step: "unique_loop files d name ext p idx = unique_loop files d name ext ?q (idx + 1)"
      using True by (rule unique_loop_taken)
    from 1 [OF True] consider
        (free) "\<not> path_exists files ?q" "unique_loop files d name ext ?q (idx + 1) = ?q"
      | (taken) k where "path_exists files ?q" "idx + 1 \<le> k"
          "unique_loop files d name ext ?q (idx + 1) = candidate d name ext k"
          "\<not> path_exists files (candidate d name ext k)"
          "\<forall>j. idx + 1 \<le> j \<and> j < k \<longrightarrow> path_exists files (candidate d name ext j)"
      by blast
    then show ?thesis
    proof cases
      case free
      with True step show ?thesis by (intro disjI2 conjI exI [of _ idx]) auto
    next
      case taken
      have "\<forall>j. idx \<le> j \<and> j < k \<longrightarrow> path_exists files (candidate d name ext j)"
      proof (intro allI impI)
        fix j assume j: "idx \<le> j \<and> j < k"
        show "path_exists files (candidate d name ext j)"
        proof (cases "j = idx")
          case True
          with taken(1) show ?thesis by simp
        next
          case False
          with j have "idx + 1 \<le> j \<and> j < k" by simp
          with taken(5) show ?thesis by blast
        qed
      qed
      with True step taken show ?thesis
        by (intro disjI2 conjI exI [of _ k]) simp_all
    qed
  qed
qed

lemma unique_loop_not_exists: "\<not> path_exists files (unique_loop files d name ext p idx)"
  using unique_loop_result [of files p d name ext idx] by auto

lemma unique_path_not_exists: "\<not> path_exists files (unique_path files d b)"
  by (simp add: unique_path_def Let_def unique_loop_not_exists split: prod.splits)

lemma candidate_ne_target:
  "candidate d (fst (splitext b)) (snd (splitext b)) k \<noteq> os_path_join d b"
proof
  assume "candidate d (fst (splitext b)) (snd (splitext b)) k = os_path_join d b"
  then have "fst (splitext b) @ ''('' @ show_nat k @ '')'' @ snd (splitext b) = b"
    unfolding candidate_def by (rule os_path_join_inject)
  then have "length (fst (splitext b) @ ''('' @ show_nat k @ '')'' @ snd (splitext b))
             = length (fst (splitext b) @ snd (splitext b))"
    by (simp only: splitext_append)
  then show False by simp
qed

lemma unique_path_free:
  "\<not> path_exists files (os_path_join d b) \<Longrightarrow> unique_path files d b = os_path_join d b"
  by (simp add: unique_path_def Let_def unique_loop_free split: prod.splits)

lemma unique_path_taken:
  assumes "path_exists files (os_path_join d b)"
  shows "\<exists>k\<ge>1. unique_path files d b = numbered d b k \<and>
           (\<forall>j. 1 \<le> j \<and> j < k \<longrightarrow> path_exists files (numbered d b j))"
proof -
  have "unique_path files d b =
        unique_loop files d (fst (splitext b)) (snd (splitext b)) (os_path_join d b) 1"
    by (simp add: unique_path_def Let_def split: prod.splits)
  with unique_loop_result [of files "os_path_join d b" d "fst (splitext b)" "snd (splitext b)" 1]
    assms
  show ?thesis unfolding numbered_def by auto
qed

lemma unique_path_second:
  assumes "\<not> path_exists files (os_path_join d b)" and "\<not> path_exists files (numbered d b 1)"
  shows "unique_path (write_file files (os_path_join d b) content) d b = numbered d b 1"
proof -
  let ?files = "write_file files (os_path_join d b) content"
  let ?name = "fst (splitext b)" and ?ext = "snd (splitext b)"
  have ex: "path_exists ?files (os_path_join d b)"
    by (simp add: path_exists_write_file)
  have nex: "\<not> path_exists ?files (candidate d ?name ?ext 1)"
    using assms(2) candidate_ne_target [of d b 1]
    by (simp add: path_exists_write_file numbered_def)
  have "unique_path ?files d b = unique_loop ?files d ?name ?ext (os_path_join d b) 1"
    by (simp add: unique_path_def Let_def split: prod.splits)
  also have "\<dots> = unique_loop ?files d ?name ?ext (candidate d ?name ?ext 1) (1 + 1)"
    using ex by (rule unique_loop_taken)
  also have "\<dots> = candidate d ?name ?ext 1"
    using nex by (rule unique_loop_free)
  finally show ?thesis by (simp add: numbered_def)
qed

text \<open>
  Claim C8, as amended. For every directory state and target file name,
  \<open>_unique_path\<close> returns the unmodified target path when no file of that name
  exists, and otherwise the first path \<open>name(k)ext\<close>, \<open>k = 1, 2, ...\<close>, that does
  not exist; the path returned never names an existing file; a second file with
  the same target name, saved after the first, gets a path different from the
  first one's; and that second path is the one suffixed \<open>(1)\<close> when the directory
  held neither the target name nor \<open>name(1)ext\<close> before the first save.
\<close>

theorem unique_path_collision_free:
  "(\<not> path_exists files (os_path_join d b) \<longrightarrow> unique_path files d b = os_path_join d b)
   \<and> (path_exists files (os_path_join d b) \<longrightarrow>
        (\<exists>k\<ge>1. unique_path files d b = numbered d b k \<and>
           (\<forall>j. 1 \<le> j \<and> j < k \<longrightarrow> path_exists files (numbered d b j))))
   \<and> \<not> path_exists files (unique_path files d b)
   \<and> unique_path (write_file files (unique_path files d b) content) d b
        \<noteq> unique_path files d b
   \<and> (\<not> path_exists files (os_path_join d b) \<and> \<not> path_exists files (numbered d b 1) \<longrightarrow>
        unique_path files d b = os_path_join d b \<and>
        unique_path (write_file files (unique_path files d b) content) d b = numbered d b 1)"
proof -
  let ?p1 = "unique_path files d b"
  let ?files = "write_file files ?p1 content"
  have "path_exists ?files ?p1" by (simp add: path_exists_write_file)
  moreover have "\<not> path_exists ?files (unique_path ?files d b)"
    by (rule unique_path_not_exists)
  ultimately have distinct: "unique_path ?files d b \<noteq> ?p1" by metis
  show ?thesis
    using unique_path_free [of files d b] unique_path_taken [of files d b]
      unique_path_not_exists [of files d b] distinct
      unique_path_second [of files d b content]
    by simp
qed

text \<open>
  The instances: an empty directory, where the second file gets the suffix \<open>(1)\<close>,
  and a directory that already holds the target name.
\<close>

theorem unique_path_collision_free_witness:
  "\<not> path_exists [] (os_path_join ''d'' ''a.txt'')
   \<and> \<not> path_exists [] (numbered ''d'' ''a.txt'' 1)
   \<and> unique_path [] ''d'' ''a.txt'' = os_path_join ''d'' ''a.txt''
   \<and> unique_path (write_file [] (unique_path [] ''d'' ''a.txt'') ''x'') ''d'' ''a.txt''
        = numbered ''d'' ''a.txt'' 1
   \<and> numbered ''d'' ''a.txt'' 1 = ''d'' @ [SEP] @ ''a(1).txt''
   \<and> path_exists [(''d'' @ [SEP] @ ''a.txt'', ''x'')] (os_path_join ''d'' ''a.txt'')
   \<and> (\<exists>k\<ge>1. unique_path [(''d'' @ [SEP] @ ''a.txt'', ''x'')] ''d'' ''a.txt''
              = numbered ''d'' ''a.txt'' k)"
proof -
  have h1: "\<not> path_exists [] (os_path_join ''d'' ''a.txt'')"
    by (simp add: path_exists_def)
  have h2: "\<not> path_exists [] (numbered ''d'' ''a.txt'' 1)"
    by (simp add: path_exists_def)
  have h3: "numbered ''d'' ''a.txt'' 1 = ''d'' @ [SEP] @ ''a(1).txt''"
    by code_simp
  have h4: "path_exists [(''d'' @ [SEP] @ ''a.txt'', ''x'')] (os_path_join ''d'' ''a.txt'')"
    by code_simp
  from unique_path_collision_free [of "[]" "''d''" "''a.txt''" "''x''"]
    unique_path_collision_free [of "[(''d'' @ [SEP] @ ''a.txt'', ''x'')]" "''d''" "''a.txt''" "''x''"]
    h1 h2 h3 h4
  show ?thesis by blast
qed

text \<open>
  The claim as stated, with the second path suffixed \<open>(1)\<close> in every directory
  state, fails where the target name is already taken, as it is when the same
  message is scanned again: the two files then get \<open>(1)\<close> and \<open>(2)\<close>.
\<close>

theorem unique_path_second_not_1:
  "unique_path [(''d'' @ [SEP] @ ''a.txt'', ''x'')] ''d'' ''a.txt'' = ''d'' @ [SEP] @ ''a(1).txt''
   \<and> unique_path
        (write_file [(''d'' @ [SEP] @ ''a.txt'', ''x'')]
           (unique_path [(''d'' @ [SEP] @ ''a.txt'', ''x'')] ''d'' ''a.txt'') ''y'')
        ''d'' ''a.txt''
      = ''d'' @ [SEP] @ ''a(2).txt''"
  by code_simp

section \<open>Properties of the sanitizer and the destination directory\<close>




















section \<open>Properties of token extraction\<close>

lemma token_match_at_take: "token_match_at (take 14 s) = token_match_at s"
  by (auto simp: token_match_at_def min_def take_drop)

lemma token_search_Some:
  "token_search s = Some m \<Longrightarrow>
   \<exists>pre post. s = pre @ m @ post \<and> length m = 14 \<and> token_match_at m \<and>
     (\<forall>k < length pre. \<not> token_match_at (drop k s))"
proof (induction s arbitrary: m)
  case Nil
  then show ?case by simp
next
  case (Cons c cs)
  show ?case
  proof (cases "token_match_at (c # cs)")
    case True
    with Cons.prems have m: "m = take 14 (c # cs)" by simp
    from True have len: "14 \<le> length (c # cs)" by (simp add: token_match_at_def)
    have "c # cs = [] @ m @ drop 14 (c # cs)" using m by simp
    moreover have "length m = 14" using m len by simp
    moreover have "token_match_at m" using m True by (simp only: token_match_at_take)
    ultimately show ?thesis by (intro exI [of _ "[]"] exI [of _ "drop 14 (c # cs)"]) simp
  next
    case False
    with Cons.prems have "token_search cs = Some m" by simp
    from Cons.IH [OF this] obtain pre post where
      p: "cs = pre @ m @ post" "length m = 14" "token_match_at m"
         "\<forall>k < length pre. \<not> token_match_at (drop k cs)"
      by blast
    have "\<forall>k < length (c # pre). \<not> token_match_at (drop k (c # cs))"
    proof (intro allI impI)
      fix k assume k: "k < length (c # pre)"
      show "\<not> token_match_at (drop k (c # cs))"
      proof (cases k)
        case 0
        with False show ?thesis by simp
      next
        case (Suc j)
        with k p(4) show ?thesis by simp
      qed
    qed
    with p show ?thesis
      by (intro exI [of _ "c # pre"] exI [of _ post]) simp
  qed
qed

lemma token_search_None:
  "token_search s = None \<Longrightarrow> \<not> token_match_at (drop k s)"
proof (induction s arbitrary: k)
  case Nil
  then show ?case by (simp add: token_match_at_def)
next
  case (Cons c cs)
  then have nm: "\<not> token_match_at (c # cs)" and rest: "token_search cs = None"
    by (simp_all split: if_splits)
  show ?case
  proof (cases k)
    case 0
    with nm show ?thesis by simp
  next
    case (Suc j)
    with Cons.IH [OF rest] show ?thesis by simp
  qed
qed

lemma token_match_at_shape:
  assumes "token_match_at m" "length m = 14"
  shows "m = ''['' @ group_inner m @ '']'' \<and> length (group_inner m) = 12 \<and>
         list_all2 eq_ci (take 4 (group_inner m)) TOKEN_PREFIX \<and>
         list_all is_alnum (drop 4 (group_inner m))"
proof -
  from assms(2) obtain c0 t where m0: "m = c0 # t" "length t = 13"
    by (cases m) simp_all
  then have "t \<noteq> []" by auto
  then obtain u c13 where t: "t = u @ [c13]" by (metis rev_exhaust)
  with m0 have u: "length u = 12" by simp
  have gi: "group_inner m = u" by (simp add: group_inner_def m0 t)
  have c0: "c0 = CHR ''[''" using assms(1) by (simp add: token_match_at_def m0)
  have "m ! 13 = c13" using m0 t u by (simp add: nth_append)
  then have c13: "c13 = CHR '']''" using assms(1) by (simp add: token_match_at_def)
  have "take 4 (drop 1 m) = take 4 u" using m0 t u by simp
  moreover have "take 8 (drop 5 m) = drop 4 u" using m0 t u by simp
  ultimately show ?thesis
    using assms(1) gi c0 c13 m0 t u by (simp add: token_match_at_def)
qed

lemma truthy_inner:
  "token_search s = Some m \<Longrightarrow> truthy (Some (group_inner m))"
proof -
  assume "token_search s = Some m"
  from token_search_Some [OF this] have "token_match_at m" "length m = 14" by auto
  from token_match_at_shape [OF this] have "length (group_inner m) = 12" by simp
  then show ?thesis by (auto simp: truthy_def)
qed

lemma extract_token_subject:
  assumes "token_search (or_else (it_Subject it) []) = Some m"
  shows "extract_token it = Some (group_inner m)"
  using assms truthy_inner [OF assms] by (simp add: extract_token_def Let_def)

lemma extract_token_body:
  assumes "token_search (or_else (it_Subject it) []) = None"
    and "token_search (or_else (it_Body it) []) = Some m"
  shows "extract_token it = Some (group_inner m)"
  using assms truthy_inner [OF assms(2)] by (simp add: extract_token_def Let_def)

lemma extract_token_html:
  assumes "token_search (or_else (it_Subject it) []) = None"
    and "token_search (or_else (it_Body it) []) = None"
  shows "extract_token it =
         map_option group_inner
           (token_search (case it_HTMLBody it of Raises \<Rightarrow> [] | Value v \<Rightarrow> or_else v []))"
  using assms by (simp add: extract_token_def Let_def truthy_def split: option.splits)

text \<open>
  Claim C3, as amended. Token extraction searches the subject line, then the
  plain-text body, then the HTML body, the HTML body only when the first two have
  no match. A match in the subject decides the token whatever the two bodies
  hold, and a match in the plain body decides it whatever the HTML body holds.
  Each search returns the leftmost substring that is an opening bracket, the
  fixed prefix and exactly 8 alphanumeric characters, both matched without regard
  to case, and a closing bracket; the token is the text between the brackets, in
  the case in which it is written there.
\<close>

theorem extract_token_first_match:
  "(token_search (or_else (it_Subject it) []) = Some m \<longrightarrow>
      extract_token it = Some (group_inner m) \<and>
      (\<forall>b h. extract_token (it\<lparr>it_Body := b, it_HTMLBody := h\<rparr>) = Some (group_inner m)))
   \<and> (token_search (or_else (it_Subject it) []) = None \<and>
       token_search (or_else (it_Body it) []) = Some m \<longrightarrow>
      extract_token it = Some (group_inner m) \<and>
      (\<forall>h. extract_token (it\<lparr>it_HTMLBody := h\<rparr>) = Some (group_inner m)))
   \<and> (token_search (or_else (it_Subject it) []) = None \<and>
       token_search (or_else (it_Body it) []) = None \<longrightarrow>
      extract_token it =
        map_option group_inner
          (token_search (case it_HTMLBody it of Raises \<Rightarrow> [] | Value v \<Rightarrow> or_else v [])))
   \<and> (token_search s = Some m \<longrightarrow>
        (\<exists>pre post. s = pre @ ''['' @ group_inner m @ '']'' @ post \<and>
           m = ''['' @ group_inner m @ '']'' \<and>
           length (group_inner m) = 12 \<and>
           list_all2 eq_ci (take 4 (group_inner m)) TOKEN_PREFIX \<and>
           list_all is_alnum (drop 4 (group_inner m)) \<and>
           (\<forall>k < length pre. \<not> token_match_at (drop k s))))
   \<and> (token_search s = None \<longrightarrow> (\<forall>k. \<not> token_match_at (drop k s)))"
proof -
  have subj: "token_search (or_else (it_Subject it) []) = Some m \<longrightarrow>
      extract_token it = Some (group_inner m) \<and>
      (\<forall>b h. extract_token (it\<lparr>it_Body := b, it_HTMLBody := h\<rparr>) = Some (group_inner m))"
  proof (intro impI conjI allI)
    assume a: "token_search (or_else (it_Subject it) []) = Some m"
    then show "extract_token it = Some (group_inner m)" by (rule extract_token_subject)
    fix b h
    from a have "token_search (or_else (it_Subject (it\<lparr>it_Body := b, it_HTMLBody := h\<rparr>)) []) = Some m"
      by simp
    then show "extract_token (it\<lparr>it_Body := b, it_HTMLBody := h\<rparr>) = Some (group_inner m)"
      by (rule extract_token_subject)
  qed
  have body: "token_search (or_else (it_Subject it) []) = None \<and>
       token_search (or_else (it_Body it) []) = Some m \<longrightarrow>
      extract_token it = Some (group_inner m) \<and>
      (\<forall>h. extract_token (it\<lparr>it_HTMLBody := h\<rparr>) = Some (group_inner m))"
  proof (intro impI conjI allI)
    assume a: "token_search (or_else (it_Subject it) []) = None \<and>
       token_search (or_else (it_Body it) []) = Some m"
    then show "extract_token it = Some (group_inner m)" by (simp add: extract_token_body)
    fix h
    from a have "token_search (or_else (it_Subject (it\<lparr>it_HTMLBody := h\<rparr>)) []) = None"
      and "token_search (or_else (it_Body (it\<lparr>it_HTMLBody := h\<rparr>)) []) = Some m"
      by simp_all
    then show "extract_token (it\<lparr>it_HTMLBody := h\<rparr>) = Some (group_inner m)"
      by (rule extract_token_body)
  qed
  have html: "token_search (or_else (it_Subject it) []) = None \<and>
       token_search (or_else (it_Body it) []) = None \<longrightarrow>
      extract_token it =
        map_option group_inner
          (token_search (case it_HTMLBody it of Raises \<Rightarrow> [] | Value v \<Rightarrow> or_else v []))"
    by (simp add: extract_token_html)
  have found: "token_search s = Some m \<longrightarrow>
        (\<exists>pre post. s = pre @ ''['' @ group_inner m @ '']'' @ post \<and>
           m = ''['' @ group_inner m @ '']'' \<and>
           length (group_inner m) = 12 \<and>
           list_all2 eq_ci (take 4 (group_inner m)) TOKEN_PREFIX \<and>
           list_all is_alnum (drop 4 (group_inner m)) \<and>
           (\<forall>k < length pre. \<not> token_match_at (drop k s)))"
  proof
    assume "token_search s = Some m"
    from token_search_Some [OF this] obtain pre post where
      p: "s = pre @ m @ post" "length m = 14" "token_match_at m"
         "\<forall>k < length pre. \<not> token_match_at (drop k s)"
      by blast
    from token_match_at_shape [OF p(3) p(2)] have
      sh: "m = ''['' @ group_inner m @ '']''" "length (group_inner m) = 12"
          "list_all2 eq_ci (take 4 (group_inner m)) TOKEN_PREFIX"
          "list_all is_alnum (drop 4 (group_inner m))"
      by simp_all
    have "s = pre @ ''['' @ group_inner m @ '']'' @ post"
      using p(1) sh(1) by (metis append.assoc)
    with sh p(4) show "\<exists>pre post. s = pre @ ''['' @ group_inner m @ '']'' @ post \<and>
           m = ''['' @ group_inner m @ '']'' \<and>
           length (group_inner m) = 12 \<and>
           list_all2 eq_ci (take 4 (group_inner m)) TOKEN_PREFIX \<and>
           list_all is_alnum (drop 4 (group_inner m)) \<and>
           (\<forall>k < length pre. \<not> token_match_at (drop k s))"
      by blast
  qed
  have none: "token_search s = None \<longrightarrow> (\<forall>k. \<not> token_match_at (drop k s))"
    using token_search_None by blast
  from subj body html found none show ?thesis by blast
qed

text \<open>
  The subject \<open>[ABA#12AB34CD] Re: Invitation\<close> yields \<open>ABA#12AB34CD\<close> though the
  body holds another token; a lower-case token in the plain body is found when
  the subject has none; the HTML body is the last resort; 7 characters are no token.
\<close>

theorem extract_token_first_match_witness:
  "token_search ''[ABA#12AB34CD] Re: Invitation'' = Some ''[ABA#12AB34CD]''
   \<and> extract_token (reply_item ''[ABA#12AB34CD] Re: Invitation'' ''see [ABA#00000000]'' ''x'')
        = Some ''ABA#12AB34CD''
   \<and> extract_token (reply_item ''Re: Invitation'' ''ref [aba#zz99zz99] thanks'' ''<p>[ABA#11111111]</p>'')
        = Some ''aba#zz99zz99''
   \<and> extract_token (reply_item ''Re: Invitation'' ''thanks'' ''<p>[ABA#11111111]</p>'')
        = Some ''ABA#11111111''
   \<and> extract_token (reply_item ''Re: Invitation'' ''thanks'' ''<p>[ABA#1111111]</p>'') = None"
proof -
  have s1: "token_search ''[ABA#12AB34CD] Re: Invitation'' = Some ''[ABA#12AB34CD]''"
    by code_simp
  have s2: "token_search ''Re: Invitation'' = None" by code_simp
  have s3: "token_search ''ref [aba#zz99zz99] thanks'' = Some ''[aba#zz99zz99]''" by code_simp
  have s4: "token_search ''thanks'' = None" by code_simp
  have s5: "token_search ''<p>[ABA#11111111]</p>'' = Some ''[ABA#11111111]''" by code_simp
  have s6: "token_search ''<p>[ABA#1111111]</p>'' = None" by code_simp
  have g: "group_inner ''[ABA#12AB34CD]'' = ''ABA#12AB34CD''"
    "group_inner ''[aba#zz99zz99]'' = ''aba#zz99zz99''"
    "group_inner ''[ABA#11111111]'' = ''ABA#11111111''"
    by (simp_all add: group_inner_def)
  note fields = reply_item_def or_else_def
  from extract_token_first_match
    [of "reply_item ''[ABA#12AB34CD] Re: Invitation'' ''see [ABA#00000000]'' ''x''"
        "''[ABA#12AB34CD]''"]
  have a: "extract_token (reply_item ''[ABA#12AB34CD] Re: Invitation'' ''see [ABA#00000000]'' ''x'')
        = Some ''ABA#12AB34CD''"
    using s1 g by (simp add: fields)
  from extract_token_first_match
    [of "reply_item ''Re: Invitation'' ''ref [aba#zz99zz99] thanks'' ''<p>[ABA#11111111]</p>''"
        "''[aba#zz99zz99]''"]
  have b: "extract_token (reply_item ''Re: Invitation'' ''ref [aba#zz99zz99] thanks'' ''<p>[ABA#11111111]</p>'')
        = Some ''aba#zz99zz99''"
    using s2 s3 g by (simp add: fields)
  from extract_token_first_match
    [of "reply_item ''Re: Invitation'' ''thanks'' ''<p>[ABA#11111111]</p>''"]
  have c: "extract_token (reply_item ''Re: Invitation'' ''thanks'' ''<p>[ABA#11111111]</p>'')
        = Some ''ABA#11111111''"
    using s2 s4 s5 g by (simp add: fields)
  from extract_token_first_match
    [of "reply_item ''Re: Invitation'' ''thanks'' ''<p>[ABA#1111111]</p>''"]
  have d: "extract_token (reply_item ''Re: Invitation'' ''thanks'' ''<p>[ABA#1111111]</p>'') = None"
    using s2 s4 s6 by (simp add: fields)
  from s1 a b c d show ?thesis by simp
qed

text \<open>
  The claim as stated has the subject yield \<open>ABA#12AB34CD\<close> regardless of the
  casing of the suffix. The match is case-insensitive, but the token returned is
  not normalised: a suffix written in lower case is returned in lower case.
\<close>

theorem extract_token_keeps_case:
  "extract_token (reply_item ''[ABA#12ab34cd] Re: Invitation'' [] []) = Some ''ABA#12ab34cd''
   \<and> extract_token (reply_item ''[ABA#12ab34cd] Re: Invitation'' [] []) \<noteq> Some ''ABA#12AB34CD''"
  by code_simp

section \<open>Properties of the scan\<close>

lemma scan_items_append:
  "scan_items cfg e (xs @ ys) sc = scan_items cfg e ys (scan_items cfg e xs sc)"
  by (induction cfg e xs sc rule: scan_items.induct) simp_all

lemma extract_token_none:
  assumes "token_search (or_else (it_Subject it) []) = None"
    and "token_search (or_else (it_Body it) []) = None"
    and "token_search (case it_HTMLBody it of Raises \<Rightarrow> [] | Value v \<Rightarrow> or_else v []) = None"
  shows "extract_token it = None"
  using assms by (simp add: extract_token_def Let_def truthy_def)

lemma scan_item_none: "extract_token it = None \<Longrightarrow> scan_item cfg e it sc = sc"
  by (simp add: scan_item_def)

text \<open>
  Claim C9. An item in which none of the three text sources holds a token leaves
  the scan's state as it was: no row is added to the reply log or to the
  attachment log, no file is saved, and the scan goes on with the next item, so
  that the outcome of scanning a folder is the same with and without the item.
\<close>

theorem scan_item_without_token:
  assumes "token_search (or_else (it_Subject it) []) = None"
    and "token_search (or_else (it_Body it) []) = None"
    and "token_search (case it_HTMLBody it of Raises \<Rightarrow> [] | Value v \<Rightarrow> or_else v []) = None"
  shows "scan_item cfg e it sc = sc
       \<and> reply_log (st_db (sc_store (scan_item cfg e it sc))) = reply_log (st_db (sc_store sc))
       \<and> attachment_log (st_db (sc_store (scan_item cfg e it sc)))
            = attachment_log (st_db (sc_store sc))
       \<and> st_files (sc_store (scan_item cfg e it sc)) = st_files (sc_store sc)
       \<and> scan_items cfg e (before @ Value it # after) sc = scan_items cfg e (before @ after) sc"
proof -
  have "extract_token it = None" using assms by (rule extract_token_none)
  then have same: "\<And>sc'. scan_item cfg e it sc' = sc'" by (rule scan_item_none)
  then show ?thesis by (simp add: scan_items_append)
qed

theorem scan_item_without_token_witness:
  "token_search ''Lunch on Friday?'' = None \<and> token_search ''See you there'' = None
   \<and> token_search ''<p>See you there</p>'' = None
   \<and> scan_item (config_py ''base'') ex_env
         (reply_item ''Lunch on Friday?'' ''See you there'' ''<p>See you there</p>'')
         \<lparr>hits = 0, scanned = 0, sc_store = ex_store\<rparr>
       = \<lparr>hits = 0, scanned = 0, sc_store = ex_store\<rparr>
   \<and> scan_items (config_py ''base'') ex_env
         ([] @ Value (reply_item ''Lunch on Friday?'' ''See you there'' ''<p>See you there</p>'')
             # [Value (reply_item ''[ABA#12AB34CD] Re: Invitation'' ''We accept'' [])])
         \<lparr>hits = 0, scanned = 0, sc_store = ex_store\<rparr>
       = scan_items (config_py ''base'') ex_env
         ([] @ [Value (reply_item ''[ABA#12AB34CD] Re: Invitation'' ''We accept'' [])])
         \<lparr>hits = 0, scanned = 0, sc_store = ex_store\<rparr>"
proof -
  let ?it = "reply_item ''Lunch on Friday?'' ''See you there'' ''<p>See you there</p>''"
  have s1: "token_search ''Lunch on Friday?'' = None" by code_simp
  have s2: "token_search ''See you there'' = None" by code_simp
  have s3: "token_search ''<p>See you there</p>'' = None" by code_simp
  have h1: "token_search (or_else (it_Subject ?it) []) = None"
    using s1 by (simp add: reply_item_def or_else_def)
  have h2: "token_search (or_else (it_Body ?it) []) = None"
    using s2 by (simp add: reply_item_def or_else_def)
  have h3: "token_search (case it_HTMLBody ?it of Raises \<Rightarrow> [] | Value v \<Rightarrow> or_else v []) = None"
    using s3 by (simp add: reply_item_def or_else_def)
  from scan_item_without_token [OF h1 h2 h3, of "config_py ''base''" ex_env
      "\<lparr>hits = 0, scanned = 0, sc_store = ex_store\<rparr>" "[]"
      "[Value (reply_item ''[ABA#12AB34CD] Re: Invitation'' ''We accept'' [])]"]
    s1 s2 s3
  show ?thesis by simp
qed

text \<open>
  Both counters are incremented at the same place, lines 399 and 400, which an
  item without a token never reaches: whatever the mailbox, they are equal.
\<close>

lemma hits_scan_item: "hits sc = scanned sc \<Longrightarrow> hits (scan_item cfg e it sc) = scanned (scan_item cfg e it sc)"
  by (simp add: scan_item_def Let_def split: option.splits)

lemma hits_scan_items: "hits sc = scanned sc \<Longrightarrow> hits (scan_items cfg e items sc) = scanned (scan_items cfg e items sc)"
  by (induction cfg e items sc rule: scan_items.induct) (simp_all add: hits_scan_item)

lemma hits_scan_folder: "hits sc = scanned sc \<Longrightarrow> hits (scan_folder cfg e f sc) = scanned (scan_folder cfg e f sc)"
  by (simp add: scan_folder_def Let_def hits_scan_items split: com.splits)

lemma hits_scan_folders: "hits sc = scanned sc \<Longrightarrow> hits (scan_folders cfg e fs sc) = scanned (scan_folders cfg e fs sc)"
  by (induction fs arbitrary: sc) (simp_all add: hits_scan_folder)

lemma poll_inbox_scanned_eq_matched:
  "cnt_scanned (fst (poll_inbox cfg e mb s)) = cnt_matched (fst (poll_inbox cfg e mb s))"
  using hits_scan_folders [of "\<lparr>hits = 0, scanned = 0, sc_store = s\<rparr>" cfg e "candidate_folders mb"]
  by (simp add: poll_inbox_def Let_def)

text \<open>
  Claim C1. \<open>poll_inbox\<close> is to return \<open>scanned\<close>, the number of items examined
  (those without a token included), and \<open>matched\<close>, the number of examined items
  with a token, so that \<open>scanned > matched\<close> when an examined item has no token.
  The code does not: in the example mailbox two items are examined, one of them
  without a token, and the counters returned are \<open>scanned = 1\<close>, \<open>matched = 1\<close>.
\<close>

theorem poll_inbox_counts_matches_only:
  "fst (poll_inbox (config_py ''base'') ex_env ex_mailbox ex_store)
     = \<lparr>cnt_scanned = 1, cnt_matched = 1\<rparr>"
  by code_simp

section \<open>Properties of the attachment capture\<close>















section \<open>Properties of the token issue and of sending\<close>

lemma length_hex_digits: "length (hex_digits k u) = k"
  by (induction k arbitrary: u) simp_all

lemma upper_hex_digit: "d < 16 \<Longrightarrow> is_upper_alnum (upper_char (hex_digit d))"
  by (auto simp: is_upper_alnum_def upper_char_def hex_digit_def code_def)

lemma hex_digits_upper: "list_all is_upper_alnum (map upper_char (hex_digits k u))"
  by (induction k arbitrary: u) (simp_all add: upper_hex_digit)

lemma is_token_issue_token: "is_token (issue_token u)"
proof -
  have "set (py_upper (take 8 (uuid_hex u))) \<subseteq> set (map upper_char (hex_digits 32 u))"
    by (auto simp: py_upper_def uuid_hex_def dest: in_set_takeD)
  then have "list_all is_upper_alnum (py_upper (take 8 (uuid_hex u)))"
    using hex_digits_upper [of 32 u] unfolding list_all_iff by blast
  moreover have "length (py_upper (take 8 (uuid_hex u))) = 8"
    by (simp add: py_upper_def uuid_hex_def length_hex_digits)
  ultimately show ?thesis
    by (simp add: is_token_def issue_token_def TOKEN_PREFIX_def)
qed

lemma upper_alnum_alnum: "is_upper_alnum c \<Longrightarrow> is_alnum c"
  by (auto simp: is_upper_alnum_def is_alnum_def)

lemma token_search_subject:
  assumes "is_token t"
  shows "token_search (make_subject t) = Some (''['' @ t @ '']'')"
proof -
  from assms have len: "length t = 12" and pre: "take 4 t = TOKEN_PREFIX"
    and suf: "list_all is_upper_alnum (drop 4 t)"
    by (simp_all add: is_token_def)
  let ?s = "t @ ''] '' @ SUBJECT_BASE"
  have s: "make_subject t = CHR ''['' # ?s" by (simp add: make_subject_def)
  have a: "take 4 ?s = TOKEN_PREFIX" using len pre by simp
  have b: "take 8 (drop 4 ?s) = drop 4 t" using len by simp
  have c: "?s ! 12 = CHR '']''" using len by (simp add: nth_append)
  have d: "list_all2 eq_ci TOKEN_PREFIX TOKEN_PREFIX"
    by (simp add: list_all2_conv_all_nth eq_ci_def)
  have e: "list_all is_alnum (drop 4 t)"
    using suf upper_alnum_alnum by (auto simp: list_all_iff)
  have m: "token_match_at (CHR ''['' # ?s)"
    using a b c d e len by (simp add: token_match_at_def)
  have "take 14 (CHR ''['' # ?s) = ''['' @ t @ '']''" using len by simp
  with m s show ?thesis by simp
qed

lemma send_one_Inr:
  assumes "send_one ol w to_email company collection_id product_desc attach_paths
           = (Inr (token, subject), w')"
  shows "token = issue_token (uuid4 ol (w_draws w)) \<and> subject = make_subject token
       \<and> w_draws w' = w_draws w + 1
       \<and> (\<exists>m. w_outbox w' = w_outbox w @ [m] \<and> mail_Subject m = subject \<and> mail_To m = to_email)
       \<and> (\<exists>row. w_db w' = insert_mail_log row (w_db w) \<and> m_token row = Some token \<and>
             m_subject row = Some subject \<and> m_status row = Some ''SENT'' \<and>
             m_email row = Some to_email)"
  using assms
  by (auto simp: send_one_def Let_def split: com.splits if_splits)

text \<open>
  Claim C6. Every token issued at send time is the fixed prefix followed by
  exactly 8 upper-case alphanumeric characters, and the subject is exactly
  \<open>[\<close>, the token, \<open>]\<close>, a space and the base subject, so that the scanner's
  pattern finds the token, bracket-enclosed, in the subject. A send that succeeds
  submits one message with that subject and leaves one send record with that
  token, the newest, whose subject is that subject and whose status is \<open>SENT\<close>.
\<close>

theorem send_one_token_and_subject:
  assumes "send_one ol w to_email company collection_id product_desc attach_paths
           = (Inr (token, subject), w')"
  shows "is_token token
       \<and> subject = ''['' @ token @ ''] '' @ SUBJECT_BASE
       \<and> token_search subject = Some (''['' @ token @ '']'')
       \<and> (\<exists>m. w_outbox w' = w_outbox w @ [m] \<and> mail_Subject m = subject \<and> mail_To m = to_email)
       \<and> (\<exists>row. rows_with_token token (w_db w') = [row] \<and> last (mail_log (w_db w')) = row \<and>
             m_subject row = Some subject \<and> m_status row = Some ''SENT'')
       \<and> is_token (issue_token u)"
proof -
  from send_one_Inr [OF assms] obtain m row where
    t: "token = issue_token (uuid4 ol (w_draws w))" and s: "subject = make_subject token" and
    m: "w_outbox w' = w_outbox w @ [m]" "mail_Subject m = subject" "mail_To m = to_email" and
    r: "w_db w' = insert_mail_log row (w_db w)" "m_token row = Some token"
       "m_subject row = Some subject" "m_status row = Some ''SENT''"
    by blast
  have tok: "is_token token" unfolding t by (rule is_token_issue_token)
  have sub: "subject = ''['' @ token @ ''] '' @ SUBJECT_BASE" using s by (simp add: make_subject_def)
  have found: "token_search subject = Some (''['' @ token @ '']'')"
    unfolding s using tok by (rule token_search_subject)
  have rows: "rows_with_token token (w_db w') = [row]"
    unfolding r(1) using r(2) by (rule rows_with_token_insert)
  have lst: "last (mail_log (w_db w')) = row"
    unfolding r(1) by (simp add: insert_mail_log_def)
  from tok sub found m rows lst r(3,4) is_token_issue_token [of u] show ?thesis by blast
qed

text \<open>The instance: the first send of the example, whose uuid is 0.\<close>

theorem send_one_token_and_subject_witness:
  "fst (send_one ex_outlook ex_world ''a1@x.com'' ''Acme'' ''T1'' ''bolts'' [])
     = Inr (''ABA#00000000'', ''[ABA#00000000] Invitation to Partner with Amazon Private Brands'')
   \<and> is_token ''ABA#00000000''
   \<and> token_search ''[ABA#00000000] Invitation to Partner with Amazon Private Brands''
       = Some (''['' @ ''ABA#00000000'' @ '']'')
   \<and> (\<exists>row. rows_with_token ''ABA#00000000''
         (w_db (snd (send_one ex_outlook ex_world ''a1@x.com'' ''Acme'' ''T1'' ''bolts'' []))) = [row]
         \<and> m_subject row = Some ''[ABA#00000000] Invitation to Partner with Amazon Private Brands'')"
proof -
  let ?r = "send_one ex_outlook ex_world ''a1@x.com'' ''Acme'' ''T1'' ''bolts'' []"
  have f: "fst ?r
     = Inr (''ABA#00000000'', ''[ABA#00000000] Invitation to Partner with Amazon Private Brands'')"
    by code_simp
  then have h: "?r = (Inr (''ABA#00000000'',
       ''[ABA#00000000] Invitation to Partner with Amazon Private Brands''), snd ?r)"
    by (metis prod.collapse)
  from send_one_token_and_subject [OF h, of 0] have
    a: "is_token ''ABA#00000000''" and
    b: "token_search ''[ABA#00000000] Invitation to Partner with Amazon Private Brands''
       = Some (''['' @ ''ABA#00000000'' @ '']'')" and
    c: "\<exists>row. rows_with_token ''ABA#00000000'' (w_db (snd ?r)) = [row]
         \<and> m_subject row = Some ''[ABA#00000000] Invitation to Partner with Amazon Private Brands''"
    by blast+
  from f a b c show ?thesis by (intro conjI)
qed

end
